theory Spec2Isabelle
  imports Complex_Main "HOL-Library.AList" "HOL-Library.DAList" "HOL-Library.Sublist"
begin

section \<open>Data model\<close>

text \<open>
  An \<^verbatim>\<open>OpenInterestItem\<close> is a dictionary with the keys \<^verbatim>\<open>"t"\<close> (timestamp, integer
  milliseconds) and \<^verbatim>\<open>"v"\<close> (value, float). Floats are modelled by the reals they denote; the
  two infinities that \<^verbatim>\<open>_calculate_open_interest\<close> starts from are made explicit below.
\<close>

record oi_item =
  oi_t :: int
  oi_v :: real

text \<open>A \<^verbatim>\<open>TickerDailyItem\<close>: the code reads the keys \<^verbatim>\<open>"p"\<close> and \<^verbatim>\<open>"q"\<close>.\<close>

record ticker_daily_item =
  td_p :: real
  td_q :: real

text \<open>
  Modelled from the spec: \<^verbatim>\<open>SettingsDTO\<close> lives in \<^verbatim>\<open>app.models\<close>; the fields are the ones
  the consumer reads (\<^verbatim>\<open>min_growth_prct\<close>, \<^verbatim>\<open>interval\<close>, \<^verbatim>\<open>timeout\<close>, \<^verbatim>\<open>is_ready\<close>),
  with the types the spec gives them (float, int seconds, int seconds, bool).
\<close>

record settings =
  min_growth_prct :: real
  interval :: int
  timeout :: int
  is_ready :: bool

text \<open>A Python float as the loop of \<^verbatim>\<open>_calculate_open_interest\<close> sees it.\<close>

datatype py_float = NegInf | Fin real | PosInf

fun float_less :: "py_float \<Rightarrow> py_float \<Rightarrow> bool" where
  "float_less (Fin a) (Fin b) = (a < b)"
| "float_less PosInf _ = False"
| "float_less _ PosInf = True"
| "float_less _ NegInf = False"
| "float_less NegInf _ = True"

datatype py_error = ZeroDivisionError

section \<open>The consumer: growth computation\<close>

text \<open>
  One iteration of the \<^verbatim>\<open>for el in open_interest\<close> loop on the state
  \<open>(found, _min, _max)\<close>: a stale element is skipped (\<^verbatim>\<open>continue\<close>); otherwise the two
  \<^verbatim>\<open>if\<close> statements run one after the other, the second against the possibly reset \<open>_max\<close>.
\<close>

definition oi_step :: "real \<Rightarrow> bool \<times> py_float \<times> py_float \<Rightarrow> oi_item \<Rightarrow> bool \<times> py_float \<times> py_float" where
  "oi_step time_threshold st el =
     (case st of (found, mn, mx) \<Rightarrow>
        if real_of_int (oi_t el) < time_threshold then st
        else
          let (found1, mn1, mx1) =
                (if float_less (Fin (oi_v el)) mn then (True, Fin (oi_v el), Fin (oi_v el))
                 else (found, mn, mx));
              mx2 = (if float_less mx1 (Fin (oi_v el)) then Fin (oi_v el) else mx1)
          in (found1, mn1, mx2))"

fun oi_loop :: "real \<Rightarrow> bool \<times> py_float \<times> py_float \<Rightarrow> oi_item list \<Rightarrow> bool \<times> py_float \<times> py_float" where
  "oi_loop time_threshold st [] = st"
| "oi_loop time_threshold st (el # els) = oi_loop time_threshold (oi_step time_threshold st el) els"

text \<open>
  The expression \<^verbatim>\<open>(_max - _min) / _min * 100\<close> of the \<^verbatim>\<open>try\<close> block: a float division by
  zero raises \<^verbatim>\<open>ZeroDivisionError\<close>, the only exception the expression can raise.
\<close>

definition growth_expr :: "real \<Rightarrow> real \<Rightarrow> py_error + real" where
  "growth_expr mx mn = (if mn = 0 then Inl ZeroDivisionError else Inr ((mx - mn) / mn * 100))"

text \<open>
  \<^verbatim>\<open>Consumer._calculate_open_interest\<close>, with the reading of \<^verbatim>\<open>time.time()\<close> as the
  parameter \<open>now\<close> (seconds). The \<^verbatim>\<open>except ZeroDivisionError\<close> handler turns the error into
  \<^verbatim>\<open>None\<close>. When \<open>found\<close> is set both bounds are finite (lemma \<open>oi_loop_found_fin\<close>), so the
  last case is never reached.
\<close>

definition calculate_open_interest :: "settings \<Rightarrow> real \<Rightarrow> oi_item list \<Rightarrow> real option" where
  "calculate_open_interest st now open_interest =
     (let time_threshold = (now - real_of_int (interval st)) * 1000;
          (found, mn, mx) = oi_loop time_threshold (False, PosInf, NegInf) open_interest
      in if \<not> found then None
         else (case (mn, mx) of
                 (Fin a, Fin b) \<Rightarrow>
                   (case growth_expr b a of
                      Inl ZeroDivisionError \<Rightarrow> None
                    | Inr r \<Rightarrow> Some r)
               | _ \<Rightarrow> None))"

text \<open>
  The reference algorithm, following the words of the specification: filter by
  \<open>timestamp \<ge> now - lookbackSeconds * 1000\<close> (\<open>now_ms\<close> in milliseconds), then one pass
  oldest to newest with a running min from \<open>+\<infinity>\<close> and a running max from \<open>-\<infinity>\<close>.
\<close>

definition in_lookback :: "real \<Rightarrow> int \<Rightarrow> oi_item \<Rightarrow> bool" where
  "in_lookback now_ms lookback s = (now_ms - real_of_int lookback * 1000 \<le> real_of_int (oi_t s))"

definition ref_step :: "py_float \<times> py_float \<Rightarrow> oi_item \<Rightarrow> py_float \<times> py_float" where
  "ref_step mm s =
     (let (mn1, mx1) = (if float_less (Fin (oi_v s)) (fst mm) then (Fin (oi_v s), Fin (oi_v s)) else mm)
      in (mn1, if float_less mx1 (Fin (oi_v s)) then Fin (oi_v s) else mx1))"

definition growth_ref :: "real \<Rightarrow> int \<Rightarrow> oi_item list \<Rightarrow> real option" where
  "growth_ref now_ms lookback samples =
     (let window = filter (in_lookback now_ms lookback) samples
      in if window = [] then None
         else (case foldl ref_step (PosInf, NegInf) window of
                 (Fin a, Fin b) \<Rightarrow> (if a = 0 then None else Some ((b - a) / a * 100))
               | _ \<Rightarrow> None))"

section \<open>The consumer: one detection tick\<close>

text \<open>
  Modelled from the spec: \<^verbatim>\<open>TimeoutTracker\<close> comes from \<^verbatim>\<open>unicex.extra\<close>, outside the
  source files. Section 4.3 of the specification gives its contract: a mapping from a key to an
  unblock deadline (absolute time); a key with no entry, or whose deadline has passed, is
  unblocked.
\<close>

type_synonym timeout_tracker = "string \<rightharpoonup> real"

text \<open>
  Modelled from the spec: \<open>isBlocked(key)\<close> is true if the key has an unexpired block. After
  \<open>block(S, 60)\<close> the key is blocked immediately and no longer blocked once 60 seconds have
  elapsed, so a deadline is unexpired while \<open>now < deadline\<close>. The clock reading is the
  parameter \<open>now\<close>. This is the answer of the call; what the call leaves in the tracker is
  \<open>evict_expired\<close> below.
\<close>

definition is_blocked :: "timeout_tracker \<Rightarrow> real \<Rightarrow> string \<Rightarrow> bool" where
  "is_blocked tracker now key = (case tracker key of None \<Rightarrow> False | Some deadline \<Rightarrow> now < deadline)"

text \<open>
  Modelled from the spec: expiry is lazy, checked on read, and an expired entry is reclaimed by
  eviction on access. This is the tracker a call of \<open>isBlocked(key)\<close> leaves behind: the entry
  of the key is dropped when its deadline has passed, and nothing else changes.
\<close>

definition evict_expired :: "timeout_tracker \<Rightarrow> real \<Rightarrow> string \<Rightarrow> timeout_tracker" where
  "evict_expired tracker now key =
     (case tracker key of
        None \<Rightarrow> tracker
      | Some deadline \<Rightarrow> if now < deadline then tracker else tracker(key := None))"

text \<open>
  Modelled from the spec: \<open>block(key, durationSeconds)\<close> sets or overwrites the unblock
  deadline to \<open>now + durationSeconds\<close>.
\<close>

definition block :: "timeout_tracker \<Rightarrow> real \<Rightarrow> string \<Rightarrow> int \<Rightarrow> timeout_tracker" where
  "block tracker now key duration = tracker(key \<mapsto> now + real_of_int duration)"

text \<open>
  The store of the producer is a dictionary from a ticker to its list of items; a dictionary
  iterates in insertion order, so it is an association list with distinct keys, written with
  \<open>AList.update\<close> (replace in place, or add at the end).
\<close>

type_synonym oi_store = "(string \<times> oi_item list) list"

type_synonym oi_snapshot = "(string \<times> oi_item) list"

type_synonym ticker_daily_dict = "string \<rightharpoonup> ticker_daily_item"

text \<open>
  What a notification task sends: the arguments of \<^verbatim>\<open>create_text\<close> that vary (exchange and
  market type are fixed by the configuration).
\<close>

record notification =
  n_symbol :: string
  n_change_pct :: real
  n_daily_price :: real
  n_daily_volume :: real

text \<open>
  \<^verbatim>\<open>Consumer._process_symbol\<close>. The test \<^verbatim>\<open>if change_pct and change_pct > ...\<close> is false
  for \<^verbatim>\<open>None\<close> and for the float zero.
\<close>

definition process_symbol ::
  "settings \<Rightarrow> real \<Rightarrow> string \<Rightarrow> oi_item list \<Rightarrow> ticker_daily_item \<Rightarrow> notification option" where
  "process_symbol st now symbol open_interest ticker_daily =
     (case calculate_open_interest st now open_interest of
        None \<Rightarrow> None
      | Some change_pct \<Rightarrow>
          if change_pct \<noteq> 0 \<and> change_pct > min_growth_prct st
          then Some \<lparr>n_symbol = symbol, n_change_pct = change_pct,
                     n_daily_price = td_p ticker_daily, n_daily_volume = td_q ticker_daily\<rparr>
          else None)"

text \<open>
  One iteration of the loop of \<^verbatim>\<open>Consumer._process\<close> on the state (tracker, tasks). The loop
  body never yields to the event loop, so the clock readings of one tick are one value \<open>now\<close>.
  The call \<^verbatim>\<open>self._timeout_tracker.is_blocked(symbol)\<close> answers and leaves the tracker
  \<open>tracker1\<close> behind, whichever branch is taken.
\<close>

definition process_entry ::
  "settings \<Rightarrow> real \<Rightarrow> ticker_daily_dict \<Rightarrow> timeout_tracker \<times> notification list \<Rightarrow>
   string \<times> oi_item list \<Rightarrow> timeout_tracker \<times> notification list" where
  "process_entry st now all_ticker_daily acc entry =
     (case acc of (tracker, tasks) \<Rightarrow>
      case entry of (symbol, klines) \<Rightarrow>
        let tracker1 = evict_expired tracker now symbol
        in if is_blocked tracker now symbol then (tracker1, tasks)
           else (case all_ticker_daily symbol of
                   None \<Rightarrow> (tracker1, tasks)
                 | Some ticker_daily \<Rightarrow>
                     (case process_symbol st now symbol klines ticker_daily of
                        None \<Rightarrow> (tracker1, tasks)
                      | Some task \<Rightarrow> (block tracker1 now symbol (timeout st), tasks @ [task]))))"

definition process_loop ::
  "settings \<Rightarrow> real \<Rightarrow> oi_store \<Rightarrow> ticker_daily_dict \<Rightarrow> timeout_tracker \<Rightarrow>
   timeout_tracker \<times> notification list" where
  "process_loop st now all_klines all_ticker_daily tracker =
     foldl (process_entry st now all_ticker_daily) (tracker, []) all_klines"

text \<open>
  \<^verbatim>\<open>asyncio.gather(*tasks)\<close> without \<^verbatim>\<open>return_exceptions\<close>. Each send ends in one of
  three ways; \<open>gather\<close> raises as soon as one task has failed, never returns while a task is
  pending and none has failed, and otherwise returns, after which the count is logged.
\<close>

datatype send_outcome = Sent | SendFailed | NeverCompletes

datatype tick_outcome = Skipped | Completed nat | Errored | Hangs

definition gather :: "(notification \<Rightarrow> send_outcome) \<Rightarrow> notification list \<Rightarrow> tick_outcome" where
  "gather send tasks =
     (if SendFailed \<in> set (map send tasks) then Errored
      else if NeverCompletes \<in> set (map send tasks) then Hangs
      else Completed (length tasks))"

text \<open>
  \<^verbatim>\<open>Consumer._process\<close>: the loop over the items of the store, then
  \<^verbatim>\<open>if tasks: await asyncio.gather(*tasks)\<close>. The result is the tracker, the tasks created
  and how the call ends.
\<close>

definition process ::
  "(notification \<Rightarrow> send_outcome) \<Rightarrow> settings \<Rightarrow> real \<Rightarrow> oi_store \<Rightarrow> ticker_daily_dict \<Rightarrow>
   timeout_tracker \<Rightarrow> timeout_tracker \<times> notification list \<times> tick_outcome" where
  "process send st now all_klines all_ticker_daily tracker =
     (let (tracker', tasks) = process_loop st now all_klines all_ticker_daily tracker
      in (tracker', tasks, if tasks = [] then Completed 0 else gather send tasks))"

text \<open>
  What one tick reads: the clock, the current settings, and the two dictionaries that
  \<^verbatim>\<open>fetch_collected_data\<close> and \<^verbatim>\<open>fetch_ticker_daily\<close> return. The loop iterates over
  \<^verbatim>\<open>all_klines.items()\<close>; the keys of a dictionary are distinct, which the type
  \<open>(string, oi_item list) alist\<close> of association lists with distinct keys records.
\<close>

record tick_input =
  ti_now :: real
  ti_settings :: settings
  ti_klines :: "(string, oi_item list) alist"
  ti_ticker_daily :: ticker_daily_dict

text \<open>
  One iteration of the \<^verbatim>\<open>while\<close> loop of \<^verbatim>\<open>Consumer.start\<close>: nothing happens while the
  settings are not ready; an exception of \<^verbatim>\<open>_process\<close> is logged and the loop goes on.
\<close>

definition consumer_tick ::
  "(notification \<Rightarrow> send_outcome) \<Rightarrow> tick_input \<Rightarrow> timeout_tracker \<Rightarrow>
   timeout_tracker \<times> notification list \<times> tick_outcome" where
  "consumer_tick send ti tracker =
     (if \<not> is_ready (ti_settings ti) then (tracker, [], Skipped)
      else process send (ti_settings ti) (ti_now ti) (DAList.impl_of (ti_klines ti))
             (ti_ticker_daily ti) tracker)"

text \<open>
  The ticks that run, one after the other, with the notifications each one dispatches; a tick
  whose \<open>gather\<close> never returns is the last one.
\<close>

fun consumer_run ::
  "(notification \<Rightarrow> send_outcome) \<Rightarrow> timeout_tracker \<Rightarrow> tick_input list \<Rightarrow> notification list list" where
  "consumer_run send tracker [] = []"
| "consumer_run send tracker (ti # tis) =
     (case consumer_tick send ti tracker of
        (tracker', tasks, outcome) \<Rightarrow>
          tasks # (if outcome = Hangs then [] else consumer_run send tracker' tis))"

section \<open>The producer\<close>

definition MAX_HISTORY_LEN :: int where
  "MAX_HISTORY_LEN = 60 * 15"

text \<open>\<^verbatim>\<open>self._open_interest[ticker]\<close> on a \<^verbatim>\<open>defaultdict(list)\<close>.\<close>

definition store_get :: "oi_store \<Rightarrow> string \<Rightarrow> oi_item list" where
  "store_get store ticker = (case map_of store ticker of None \<Rightarrow> [] | Some els \<Rightarrow> els)"

text \<open>
  The body of the loop of \<^verbatim>\<open>Producer._process_snapshot\<close>: the list is replaced by its
  elements at or after the threshold, then the new item is appended.
\<close>

definition process_snapshot_item :: "real \<Rightarrow> oi_store \<Rightarrow> string \<times> oi_item \<Rightarrow> oi_store" where
  "process_snapshot_item threshold store entry =
     (case entry of (ticker, open_interest_item) \<Rightarrow>
        let store1 = AList.update ticker
                       (filter (\<lambda>el. threshold \<le> real_of_int (oi_t el)) (store_get store ticker)) store
        in AList.update ticker (store_get store1 ticker @ [open_interest_item]) store1)"

definition process_snapshot :: "real \<Rightarrow> oi_store \<Rightarrow> oi_snapshot \<Rightarrow> oi_store" where
  "process_snapshot now store open_interest =
     (let threshold = (now - real_of_int MAX_HISTORY_LEN) * 1000
      in foldl (process_snapshot_item threshold) store open_interest)"

text \<open>
  What \<^verbatim>\<open>asyncio.gather(..., return_exceptions=True)\<close> yields for one request: an instance
  of \<^verbatim>\<open>Exception\<close> that the request raised; an exception object that is not an instance of
  \<^verbatim>\<open>Exception\<close> (\<^verbatim>\<open>asyncio.CancelledError\<close> derives from \<^verbatim>\<open>BaseException\<close>, and a
  cancelled request is returned as such an object); a falsy response; or an item.
\<close>

datatype oi_response = Raised string | RaisedBase string | Empty | Response oi_item

text \<open>\<^verbatim>\<open>isinstance(response, Exception)\<close>.\<close>

fun is_exception :: "oi_response \<Rightarrow> bool" where
  "is_exception (Raised e) = True"
| "is_exception (RaisedBase e) = False"
| "is_exception Empty = False"
| "is_exception (Response item) = False"

text \<open>The truth value of a response: an exception object and a dictionary with keys are true.\<close>

fun truthy :: "oi_response \<Rightarrow> bool" where
  "truthy (Raised e) = True"
| "truthy (RaisedBase e) = True"
| "truthy Empty = False"
| "truthy (Response item) = True"

text \<open>
  The dictionary \<^verbatim>\<open>results\<close> of the batched fetch: whatever object passes the two tests is
  stored under its ticker.
\<close>

type_synonym oi_results = "(string \<times> oi_response) list"

text \<open>
  The body of the inner loop: \<^verbatim>\<open>continue\<close> on an instance of \<^verbatim>\<open>Exception\<close>,
  \<^verbatim>\<open>continue\<close> on a falsy response, otherwise \<^verbatim>\<open>results[ticker] = response\<close>.
\<close>

definition collect_response :: "oi_results \<Rightarrow> string \<times> oi_response \<Rightarrow> oi_results" where
  "collect_response results tr =
     (case tr of (ticker, response) \<Rightarrow>
        if is_exception response then results
        else if \<not> truthy response then results
        else AList.update ticker response results)"

definition fetch_chunk :: "(string \<Rightarrow> oi_response) \<Rightarrow> oi_results \<Rightarrow> string list \<Rightarrow> oi_results" where
  "fetch_chunk open_interest results chunk =
     (let responses = map open_interest chunk
      in foldl collect_response results (zip chunk responses))"

text \<open>
  \<^verbatim>\<open>Producer._fetch_open_interest_snapshot_batched\<close>: the client's per-ticker request is the
  parameter \<open>open_interest\<close>, the result of \<^verbatim>\<open>futures_tickers_batched\<close> is
  \<open>chunked_tickers_list\<close>; the pause between chunks has no effect on the result.
\<close>

definition fetch_open_interest_snapshot_batched ::
  "(string \<Rightarrow> oi_response) \<Rightarrow> string list list \<Rightarrow> oi_results" where
  "fetch_open_interest_snapshot_batched open_interest chunked_tickers_list =
     foldl (fetch_chunk open_interest) [] chunked_tickers_list"

section \<open>Named conditions and example data\<close>

text \<open>
  The three tests that stand between a dictionary entry and a dispatched task, collected from
  \<^verbatim>\<open>_process\<close> (blocked, ticker entry) and \<^verbatim>\<open>_process_symbol\<close> (growth).
\<close>

definition alert_cond ::
  "settings \<Rightarrow> real \<Rightarrow> ticker_daily_dict \<Rightarrow> timeout_tracker \<Rightarrow> string \<Rightarrow> oi_item list \<Rightarrow> bool" where
  "alert_cond st now tds tracker symbol klines =
     (\<not> is_blocked tracker now symbol \<and> tds symbol \<noteq> None \<and>
      (case calculate_open_interest st now klines of
         None \<Rightarrow> False
       | Some c \<Rightarrow> c \<noteq> 0 \<and> c > min_growth_prct st))"

text \<open>
  Example data, after the end-to-end case of the specification: the open interest of \<open>XYZ\<close>
  rises from 1000 to 1300 inside a lookback of 60 seconds, the threshold is 25 percent and the
  cooldown 300 seconds.
\<close>

definition ex_settings :: settings where
  "ex_settings = \<lparr>min_growth_prct = 25, interval = 60, timeout = 300, is_ready = True\<rparr>"

definition ex_klines :: "(string, oi_item list) alist" where
  "ex_klines = Alist [(''XYZ'', [\<lparr>oi_t = 995000, oi_v = 1000\<rparr>, \<lparr>oi_t = 999000, oi_v = 1300\<rparr>])]"

definition ex_ticker_daily :: ticker_daily_dict where
  "ex_ticker_daily = [''XYZ'' \<mapsto> \<lparr>td_p = 2, td_q = 5000000\<rparr>]"

definition ex_tick :: "real \<Rightarrow> tick_input" where
  "ex_tick now = \<lparr>ti_now = now, ti_settings = ex_settings, ti_klines = ex_klines,
                   ti_ticker_daily = ex_ticker_daily\<rparr>"

text \<open>
  A tick with a negative threshold: \<open>XYZ\<close> has one sample in the window and a daily-ticker
  entry, \<open>ABC\<close> has no daily-ticker entry. It is run on a tracker that still holds an entry for
  \<open>ABC\<close> whose deadline (500) has passed.
\<close>

definition ex_tick_neg :: tick_input where
  "ex_tick_neg =
     \<lparr>ti_now = 1000,
      ti_settings = \<lparr>min_growth_prct = - 1, interval = 60, timeout = 300, is_ready = True\<rparr>,
      ti_klines = Alist [(''XYZ'', [\<lparr>oi_t = 999000, oi_v = 50\<rparr>]), (''ABC'', [\<lparr>oi_t = 999000, oi_v = 70\<rparr>])],
      ti_ticker_daily = [''XYZ'' \<mapsto> \<lparr>td_p = 2, td_q = 5000000\<rparr>]\<rparr>"

section \<open>The growth loop and the reference algorithm\<close>

lemma oi_step_stale:
  "real_of_int (oi_t el) < thr \<Longrightarrow> oi_step thr st el = st"
  by (simp add: oi_step_def split: prod.splits)

lemma oi_step_fresh:
  "\<not> real_of_int (oi_t el) < thr \<Longrightarrow>
   oi_step thr (f, mn, mx) el =
     (f \<or> float_less (Fin (oi_v el)) mn, ref_step (mn, mx) el)"
  by (simp add: oi_step_def ref_step_def Let_def)

lemma oi_loop_filter:
  "oi_loop thr st els = oi_loop thr st (filter (\<lambda>el. \<not> real_of_int (oi_t el) < thr) els)"
  by (induction els arbitrary: st) (simp_all add: oi_step_stale)

lemma oi_loop_ref:
  "\<forall>el \<in> set els. \<not> real_of_int (oi_t el) < thr \<Longrightarrow>
   snd (oi_loop thr (f, mn, mx) els) = foldl ref_step (mn, mx) els"
proof (induction els arbitrary: f mn mx)
  case Nil
  then show ?case by simp
next
  case (Cons el els)
  obtain mn' mx' where r: "ref_step (mn, mx) el = (mn', mx')" by (cases "ref_step (mn, mx) el")
  from Cons show ?case by (simp add: oi_step_fresh r)
qed

lemma ref_step_min_fin:
  "fst (ref_step (mn, mx) el) \<noteq> PosInf"
  by (cases mn) (simp_all add: ref_step_def Let_def)

lemma oi_loop_found:
  "\<forall>el \<in> set els. \<not> real_of_int (oi_t el) < thr \<Longrightarrow> (f \<longleftrightarrow> mn \<noteq> PosInf) \<Longrightarrow>
   fst (oi_loop thr (f, mn, mx) els) = (f \<or> els \<noteq> [])"
proof (induction els arbitrary: f mn mx)
  case Nil
  then show ?case by simp
next
  case (Cons el els)
  obtain mn' mx' where r: "ref_step (mn, mx) el = (mn', mx')" by (cases "ref_step (mn, mx) el")
  have fin: "mn' \<noteq> PosInf" using ref_step_min_fin [of mn mx el] r by simp
  have now: "(f \<or> float_less (Fin (oi_v el)) mn)"
    using Cons.prems(2) by (cases mn) auto
  from Cons.prems(1) have fresh: "\<not> real_of_int (oi_t el) < thr" and rest: "\<forall>el \<in> set els. \<not> real_of_int (oi_t el) < thr" by simp_all
  show ?case using Cons.IH [OF rest, of True mn' mx'] fin now fresh
    by (simp add: oi_step_fresh r)
qed

lemma in_lookback_code:
  "in_lookback (now * 1000) (interval st) el \<longleftrightarrow>
   \<not> real_of_int (oi_t el) < (now - real_of_int (interval st)) * 1000"
  by (simp add: in_lookback_def algebra_simps not_less)

lemma oi_loop_window:
  "oi_loop thr (False, PosInf, NegInf) els =
     (filter (\<lambda>el. \<not> real_of_int (oi_t el) < thr) els \<noteq> [],
      foldl ref_step (PosInf, NegInf) (filter (\<lambda>el. \<not> real_of_int (oi_t el) < thr) els))"
proof -
  let ?w = "filter (\<lambda>el. \<not> real_of_int (oi_t el) < thr) els"
  have fresh: "\<forall>el \<in> set ?w. \<not> real_of_int (oi_t el) < thr" by simp
  have "fst (oi_loop thr (False, PosInf, NegInf) ?w) = (?w \<noteq> [])"
    using oi_loop_found [OF fresh, of False PosInf NegInf] by simp
  moreover have "snd (oi_loop thr (False, PosInf, NegInf) ?w) = foldl ref_step (PosInf, NegInf) ?w"
    by (rule oi_loop_ref [OF fresh])
  ultimately have "oi_loop thr (False, PosInf, NegInf) ?w = (?w \<noteq> [], foldl ref_step (PosInf, NegInf) ?w)"
    by (simp add: prod_eq_iff)
  then show ?thesis using oi_loop_filter [of thr "(False, PosInf, NegInf)" els] by simp
qed

lemma ref_step_fin:
  "\<exists>a' b'. ref_step (Fin a, Fin b) s = (Fin a', Fin b')"
  by (simp add: ref_step_def Let_def)

lemma ref_step_init:
  "ref_step (PosInf, NegInf) s = (Fin (oi_v s), Fin (oi_v s))"
  by (simp add: ref_step_def Let_def)

lemma foldl_ref_step_fin:
  "\<exists>a' b'. foldl ref_step (Fin a, Fin b) xs = (Fin a', Fin b')"
proof (induction xs arbitrary: a b)
  case Nil
  then show ?case by simp
next
  case (Cons x xs)
  from ref_step_fin [of a b x] obtain a1 b1 where "ref_step (Fin a, Fin b) x = (Fin a1, Fin b1)"
    by blast
  with Cons.IH [of a1 b1] show ?case by simp
qed

lemma oi_loop_found_fin:
  assumes "oi_loop thr (False, PosInf, NegInf) els = (True, mn, mx)"
  shows "\<exists>a b. mn = Fin a \<and> mx = Fin b"
proof -
  let ?w = "filter (\<lambda>el. \<not> real_of_int (oi_t el) < thr) els"
  from assms have ne: "?w \<noteq> []" and f: "foldl ref_step (PosInf, NegInf) ?w = (mn, mx)"
    by (simp_all add: oi_loop_window)
  from ne obtain x xs where w: "?w = x # xs" by (cases ?w) auto
  from foldl_ref_step_fin [of "oi_v x" "oi_v x" xs] f show ?thesis
    by (auto simp: w ref_step_init)
qed

lemma calculate_eq_ref:
  "calculate_open_interest st now ois = growth_ref (now * 1000) (interval st) ois"
proof -
  have w: "filter (in_lookback (now * 1000) (interval st)) ois =
           filter (\<lambda>el. \<not> real_of_int (oi_t el) < (now - real_of_int (interval st)) * 1000) ois"
    by (rule filter_cong) (simp_all add: in_lookback_code)
  show ?thesis
    unfolding calculate_open_interest_def growth_ref_def Let_def w oi_loop_window
    by (simp add: growth_expr_def split: prod.splits py_float.splits)
qed

lemma growth_ref_example:
  assumes "\<forall>el \<in> set ois. in_lookback now_ms lb el" "map oi_v ois = [100, 80, 150, 90]"
  shows "growth_ref now_ms lb ois = Some 87.5"
proof -
  from assms(2) obtain a b c d where ois: "ois = [a, b, c, d]"
    and v: "oi_v a = 100" "oi_v b = 80" "oi_v c = 150" "oi_v d = 90"
    by (auto simp: map_eq_Cons_conv)
  have f: "filter (in_lookback now_ms lb) ois = ois" using assms(1) by simp
  show ?thesis unfolding growth_ref_def Let_def f
    by (simp add: ois v ref_step_def)
qed

text \<open>
  Claim C1. The growth computation of the detection loop equals the reference single-pass
  algorithm of the specification (time filter, running min from plus infinity, running max from
  minus infinity, a new strict minimum resets the maximum, result \<open>(max - min) / min * 100\<close>);
  for four samples inside the lookback with the values 100, 80, 150, 90 in that order the
  result is 87.5.
\<close>

theorem calculate_open_interest_reference:
  "calculate_open_interest st now ois = growth_ref (now * 1000) (interval st) ois \<and>
   ((\<forall>el \<in> set ois. \<not> real_of_int (oi_t el) < (now - real_of_int (interval st)) * 1000) \<and>
    map oi_v ois = [100, 80, 150, 90]
    \<longrightarrow> calculate_open_interest st now ois = Some 87.5)"
  using growth_ref_example [of ois "now * 1000" "interval st"]
  by (simp add: calculate_eq_ref in_lookback_code)

theorem calculate_open_interest_reference_witness:
  "list_all (\<lambda>el. \<not> real_of_int (oi_t el) < (1000 - real_of_int (interval \<lparr>min_growth_prct = 25, interval = 60, timeout = 300, is_ready = True\<rparr>)) * 1000)
      [\<lparr>oi_t = 995000, oi_v = 100\<rparr>, \<lparr>oi_t = 996000, oi_v = 80\<rparr>,
       \<lparr>oi_t = 997000, oi_v = 150\<rparr>, \<lparr>oi_t = 998000, oi_v = 90\<rparr>] \<and>
   calculate_open_interest \<lparr>min_growth_prct = 25, interval = 60, timeout = 300, is_ready = True\<rparr> 1000
     [\<lparr>oi_t = 995000, oi_v = 100\<rparr>, \<lparr>oi_t = 996000, oi_v = 80\<rparr>,
      \<lparr>oi_t = 997000, oi_v = 150\<rparr>, \<lparr>oi_t = 998000, oi_v = 90\<rparr>] = Some 87.5"
  using calculate_open_interest_reference [of "\<lparr>min_growth_prct = 25, interval = 60, timeout = 300, is_ready = True\<rparr>" 1000
     "[\<lparr>oi_t = 995000, oi_v = 100\<rparr>, \<lparr>oi_t = 996000, oi_v = 80\<rparr>,
      \<lparr>oi_t = 997000, oi_v = 150\<rparr>, \<lparr>oi_t = 998000, oi_v = 90\<rparr>]", THEN conjunct2]
  by simp

section \<open>One tick of the detection loop\<close>

lemma process_symbol_symbol:
  "process_symbol st now symbol klines td = Some task \<Longrightarrow> n_symbol task = symbol"
  by (auto simp: process_symbol_def split: option.splits if_splits)

lemma evict_expired_apply:
  "evict_expired tracker now k s =
     (if s = k \<and> \<not> is_blocked tracker now k then None else tracker s)"
  by (simp add: evict_expired_def is_blocked_def split: option.splits)

lemma evict_expired_blocked:
  "is_blocked tracker now k \<Longrightarrow> evict_expired tracker now k = tracker"
  by (auto simp: evict_expired_def is_blocked_def split: option.splits)

lemma process_entry_other:
  "fst entry \<noteq> s \<Longrightarrow> process_entry st now tds (tracker, tasks) entry = (tracker', tasks') \<Longrightarrow>
   tracker' s = tracker s \<and> (s \<in> n_symbol ` set tasks' \<longleftrightarrow> s \<in> n_symbol ` set tasks)"
  by (cases entry)
     (auto simp: process_entry_def block_def Let_def evict_expired_apply
           split: if_splits option.splits dest: process_symbol_symbol)

lemma process_entries_other:
  "s \<notin> fst ` set entries \<Longrightarrow>
   foldl (process_entry st now tds) (tracker, tasks) entries = (tracker', tasks') \<Longrightarrow>
   tracker' s = tracker s \<and> (s \<in> n_symbol ` set tasks' \<longleftrightarrow> s \<in> n_symbol ` set tasks)"
proof (induction entries arbitrary: tracker tasks)
  case Nil
  then show ?case by simp
next
  case (Cons e es)
  obtain tr1 ts1 where step: "process_entry st now tds (tracker, tasks) e = (tr1, ts1)"
    by (cases "process_entry st now tds (tracker, tasks) e")
  from Cons.prems(1) have e: "fst e \<noteq> s" and es: "s \<notin> fst ` set es" by auto
  from Cons.prems(2) step have rest: "foldl (process_entry st now tds) (tr1, ts1) es = (tracker', tasks')"
    by simp
  from process_entry_other [OF e step] Cons.IH [OF es rest] show ?case by simp
qed

lemma process_entry_self:
  "s \<notin> n_symbol ` set tasks \<Longrightarrow>
   process_entry st now tds (tracker, tasks) (s, klines) = (tracker', tasks') \<Longrightarrow>
   (s \<in> n_symbol ` set tasks' \<longleftrightarrow> alert_cond st now tds tracker s klines) \<and>
   tracker' s = (if alert_cond st now tds tracker s klines
                 then Some (now + real_of_int (timeout st))
                 else evict_expired tracker now s s)"
  by (auto simp: process_entry_def alert_cond_def block_def process_symbol_def Let_def
           split: if_splits option.splits)

lemma process_entry_blocked:
  assumes t: "tracker s = Some d" and n: "now < d"
    and r: "process_entry st now tds (tracker, tasks) entry = (tracker', tasks')"
  shows "tracker' s = Some d \<and> (s \<in> n_symbol ` set tasks' \<longleftrightarrow> s \<in> n_symbol ` set tasks)"
proof (cases "fst entry = s")
  case True
  from t n have "is_blocked tracker now (fst entry)" by (simp add: is_blocked_def True)
  with r have "tracker' = tracker \<and> tasks' = tasks"
    by (cases entry) (auto simp: process_entry_def Let_def evict_expired_blocked)
  with t show ?thesis by simp
next
  case False
  from process_entry_other [OF False r] t show ?thesis by simp
qed

lemma process_entries_blocked:
  "tracker s = Some d \<Longrightarrow> now < d \<Longrightarrow>
   foldl (process_entry st now tds) (tracker, tasks) entries = (tracker', tasks') \<Longrightarrow>
   tracker' s = Some d \<and> (s \<in> n_symbol ` set tasks' \<longleftrightarrow> s \<in> n_symbol ` set tasks)"
proof (induction entries arbitrary: tracker tasks)
  case Nil
  then show ?case by simp
next
  case (Cons e es)
  obtain tr1 ts1 where step: "process_entry st now tds (tracker, tasks) e = (tr1, ts1)"
    by (cases "process_entry st now tds (tracker, tasks) e")
  from Cons.prems(3) step have rest: "foldl (process_entry st now tds) (tr1, ts1) es = (tracker', tasks')"
    by simp
  from process_entry_blocked [OF Cons.prems(1,2) step]
  have a: "tr1 s = Some d" and b: "s \<in> n_symbol ` set ts1 \<longleftrightarrow> s \<in> n_symbol ` set tasks" by simp_all
  from Cons.IH [OF a Cons.prems(2) rest] b show ?case by simp
qed

lemma process_loop_decides:
  assumes d: "distinct (map fst all_klines)" and m: "(s, klines) \<in> set all_klines"
    and r: "process_loop st now all_klines tds tracker = (tracker', tasks')"
  shows "(s \<in> n_symbol ` set tasks' \<longleftrightarrow> alert_cond st now tds tracker s klines) \<and>
         tracker' s = (if alert_cond st now tds tracker s klines
                       then Some (now + real_of_int (timeout st))
                       else evict_expired tracker now s s)"
proof -
  from m obtain pre post where sp: "all_klines = pre @ (s, klines) # post"
    by (auto simp: in_set_conv_decomp)
  with d have npre: "s \<notin> fst ` set pre" and npost: "s \<notin> fst ` set post" by auto
  obtain tr1 ts1 where p1: "foldl (process_entry st now tds) (tracker, []) pre = (tr1, ts1)"
    by (cases "foldl (process_entry st now tds) (tracker, []) pre")
  obtain tr2 ts2 where p2: "process_entry st now tds (tr1, ts1) (s, klines) = (tr2, ts2)"
    by (cases "process_entry st now tds (tr1, ts1) (s, klines)")
  from r have p3: "foldl (process_entry st now tds) (tr2, ts2) post = (tracker', tasks')"
    by (simp add: process_loop_def sp p1 p2)
  from process_entries_other [OF npre p1] have a: "tr1 s = tracker s" "s \<notin> n_symbol ` set ts1"
    by simp_all
  have same: "alert_cond st now tds tr1 s klines = alert_cond st now tds tracker s klines"
    by (simp add: alert_cond_def is_blocked_def a(1))
  have ev: "evict_expired tr1 now s s = evict_expired tracker now s s"
    by (simp add: evict_expired_apply is_blocked_def a(1))
  from process_entry_self [OF a(2) p2] process_entries_other [OF npost p3] a(1) same ev
  show ?thesis by simp
qed

lemma process_entries_distinct:
  "distinct (map fst entries) \<Longrightarrow> distinct (map n_symbol tasks) \<Longrightarrow>
   n_symbol ` set tasks \<inter> fst ` set entries = {} \<Longrightarrow>
   distinct (map n_symbol (snd (foldl (process_entry st now tds) (tracker, tasks) entries)))"
proof (induction entries arbitrary: tracker tasks)
  case Nil
  then show ?case by simp
next
  case (Cons e es)
  obtain k klines where e: "e = (k, klines)" by (cases e)
  obtain tr1 ts1 where step: "process_entry st now tds (tracker, tasks) e = (tr1, ts1)"
    by (cases "process_entry st now tds (tracker, tasks) e")
  from Cons.prems have d: "distinct (map fst es)" and nk: "k \<notin> fst ` set es"
    and nt: "k \<notin> n_symbol ` set tasks" by (auto simp: e)
  from Cons.prems(3) have i0: "n_symbol ` set tasks \<inter> fst ` set es = {}"
    by (auto simp: e)
  have "ts1 = tasks \<or> (\<exists>task. ts1 = tasks @ [task] \<and> n_symbol task = k)"
    using step
    by (auto simp: e process_entry_def Let_def split: if_splits option.splits
          dest: process_symbol_symbol)
  then have "distinct (map n_symbol ts1) \<and> n_symbol ` set ts1 \<inter> fst ` set es = {}"
  proof
    assume "ts1 = tasks"
    with Cons.prems(2) i0 show ?thesis by simp
  next
    assume "\<exists>task. ts1 = tasks @ [task] \<and> n_symbol task = k"
    then obtain task where t: "ts1 = tasks @ [task]" "n_symbol task = k" by blast
    from t Cons.prems(2) nt have "distinct (map n_symbol ts1)" by simp
    moreover from t nk i0 have "n_symbol ` set ts1 \<inter> fst ` set es = {}" by simp
    ultimately show ?thesis by simp
  qed
  then have d1: "distinct (map n_symbol ts1)"
    and i1: "n_symbol ` set ts1 \<inter> fst ` set es = {}" by simp_all
  from Cons.IH [OF d d1 i1, of tr1] show ?case by (simp add: step)
qed

lemma process_loop_at_most_once:
  "distinct (map fst all_klines) \<Longrightarrow>
   distinct (map n_symbol (snd (process_loop st now all_klines tds tracker)))"
  unfolding process_loop_def by (rule process_entries_distinct) simp_all

lemma code_window:
  "filter (in_lookback (now * 1000) (interval st)) ois =
   filter (\<lambda>el. \<not> real_of_int (oi_t el) < (now - real_of_int (interval st)) * 1000) ois"
  by (rule filter_cong) (simp_all add: in_lookback_code)

lemma calculate_single:
  assumes "filter (\<lambda>el. \<not> real_of_int (oi_t el) < (now - real_of_int (interval st)) * 1000) klines = [x]"
    and "oi_v x \<noteq> 0"
  shows "calculate_open_interest st now klines = Some 0"
  using assms
  by (simp add: calculate_eq_ref growth_ref_def code_window ref_step_def)

text \<open>
  Claim C7. When the pass over the samples inside the lookback leaves the running min at zero,
  the growth computation returns \<^verbatim>\<open>None\<close>: the division by zero is caught by the handler and
  no exception leaves the function (its result type has no error).
\<close>

theorem zero_min_is_no_signal:
  assumes "fst (snd (oi_loop ((now - real_of_int (interval st)) * 1000) (False, PosInf, NegInf) ois)) = Fin 0"
  shows "calculate_open_interest st now ois = None"
  using assms
  by (auto simp: calculate_open_interest_def growth_expr_def Let_def
           split: prod.splits py_float.splits)

theorem zero_min_is_no_signal_witness:
  "fst (snd (oi_loop ((1000 - real_of_int (interval ex_settings)) * 1000) (False, PosInf, NegInf)
      [\<lparr>oi_t = 995000, oi_v = 5\<rparr>, \<lparr>oi_t = 996000, oi_v = 0\<rparr>, \<lparr>oi_t = 997000, oi_v = 3\<rparr>])) = Fin 0 \<and>
   calculate_open_interest ex_settings 1000
      [\<lparr>oi_t = 995000, oi_v = 5\<rparr>, \<lparr>oi_t = 996000, oi_v = 0\<rparr>, \<lparr>oi_t = 997000, oi_v = 3\<rparr>] = None"
proof -
  have h: "fst (snd (oi_loop ((1000 - real_of_int (interval ex_settings)) * 1000) (False, PosInf, NegInf)
      [\<lparr>oi_t = 995000, oi_v = 5\<rparr>, \<lparr>oi_t = 996000, oi_v = 0\<rparr>, \<lparr>oi_t = 997000, oi_v = 3\<rparr>])) = Fin 0"
    by (simp add: oi_step_def ex_settings_def)
  from h zero_min_is_no_signal [OF h] show ?thesis by simp
qed

text \<open>
  Claim C8. A window with exactly one sample inside the lookback, of nonzero value, gives a
  growth of 0 (min = max = that value), not an error, and the tick dispatches no notification
  for that symbol.
\<close>

theorem single_sample_zero_growth:
  assumes "filter (\<lambda>el. \<not> real_of_int (oi_t el) < (now - real_of_int (interval st)) * 1000) klines = [x]"
    and "oi_v x \<noteq> 0"
  shows "calculate_open_interest st now klines = Some 0 \<and>
         process_symbol st now s klines td = None \<and>
         (distinct (map fst all_klines) \<and> (s, klines) \<in> set all_klines \<longrightarrow>
            s \<notin> n_symbol ` set (snd (process_loop st now all_klines tds tracker)))"
proof -
  have c: "calculate_open_interest st now klines = Some 0"
    by (rule calculate_single [OF assms])
  have p: "process_symbol st now s klines td = None"
    by (simp add: process_symbol_def c)
  have "s \<notin> n_symbol ` set (snd (process_loop st now all_klines tds tracker))"
    if d: "distinct (map fst all_klines)" and m: "(s, klines) \<in> set all_klines"
  proof -
    obtain tr' ts' where r: "process_loop st now all_klines tds tracker = (tr', ts')"
      by (cases "process_loop st now all_klines tds tracker")
    have "\<not> alert_cond st now tds tracker s klines" by (simp add: alert_cond_def c)
    with process_loop_decides [OF d m r] show ?thesis by (simp add: r)
  qed
  with c p show ?thesis by blast
qed

theorem single_sample_zero_growth_witness:
  "filter (\<lambda>el. \<not> real_of_int (oi_t el) < (1000 - real_of_int (interval ex_settings)) * 1000)
      [\<lparr>oi_t = 900000, oi_v = 70\<rparr>, \<lparr>oi_t = 999000, oi_v = 50\<rparr>] = [\<lparr>oi_t = 999000, oi_v = 50\<rparr>] \<and>
   oi_v \<lparr>oi_t = 999000, oi_v = 50\<rparr> \<noteq> 0 \<and>
   calculate_open_interest ex_settings 1000 [\<lparr>oi_t = 900000, oi_v = 70\<rparr>, \<lparr>oi_t = 999000, oi_v = 50\<rparr>] = Some 0 \<and>
   process_symbol ex_settings 1000 ''XYZ'' [\<lparr>oi_t = 900000, oi_v = 70\<rparr>, \<lparr>oi_t = 999000, oi_v = 50\<rparr>]
      \<lparr>td_p = 1, td_q = 2\<rparr> = None \<and>
   distinct (map fst [(''XYZ'', [\<lparr>oi_t = 900000, oi_v = 70\<rparr>, \<lparr>oi_t = 999000, oi_v = 50\<rparr>])]) \<and>
   (''XYZ'', [\<lparr>oi_t = 900000, oi_v = 70\<rparr>, \<lparr>oi_t = 999000, oi_v = 50\<rparr>])
      \<in> set [(''XYZ'', [\<lparr>oi_t = 900000, oi_v = 70\<rparr>, \<lparr>oi_t = 999000, oi_v = 50\<rparr>])] \<and>
   ''XYZ'' \<notin> n_symbol ` set (snd (process_loop ex_settings 1000
      [(''XYZ'', [\<lparr>oi_t = 900000, oi_v = 70\<rparr>, \<lparr>oi_t = 999000, oi_v = 50\<rparr>])]
      [''XYZ'' \<mapsto> \<lparr>td_p = 1, td_q = 2\<rparr>] Map.empty))"
proof -
  have h1: "filter (\<lambda>el. \<not> real_of_int (oi_t el) < (1000 - real_of_int (interval ex_settings)) * 1000)
      [\<lparr>oi_t = 900000, oi_v = 70\<rparr>, \<lparr>oi_t = 999000, oi_v = 50\<rparr>] = [\<lparr>oi_t = 999000, oi_v = 50\<rparr>]"
    by (simp add: ex_settings_def)
  have h2: "oi_v \<lparr>oi_t = 999000, oi_v = 50\<rparr> \<noteq> 0" by simp
  from h1 h2 single_sample_zero_growth [OF h1 h2, of "''XYZ''" "\<lparr>td_p = 1, td_q = 2\<rparr>"
      "[(''XYZ'', [\<lparr>oi_t = 900000, oi_v = 70\<rparr>, \<lparr>oi_t = 999000, oi_v = 50\<rparr>])]"
      "[''XYZ'' \<mapsto> \<lparr>td_p = 1, td_q = 2\<rparr>]" Map.empty]
  show ?thesis by simp
qed

section \<open>Dispatch, cooldown and the sequence of ticks\<close>

lemma alert_cond_ex:
  "alert_cond st now tds tracker s klines \<longleftrightarrow>
   (\<not> is_blocked tracker now s \<and> tds s \<noteq> None \<and>
    (\<exists>c. calculate_open_interest st now klines = Some c \<and> c \<noteq> 0 \<and> c > min_growth_prct st))"
  by (auto simp: alert_cond_def split: option.splits)

lemma consumer_tick_ready:
  "is_ready (ti_settings ti) \<Longrightarrow> consumer_tick send ti tracker = (tracker', tasks, outcome) \<Longrightarrow>
   process_loop (ti_settings ti) (ti_now ti) (DAList.impl_of (ti_klines ti)) (ti_ticker_daily ti) tracker =
     (tracker', tasks)"
  by (auto simp: consumer_tick_def process_def Let_def split: prod.splits)

lemma consumer_tick_tracker:
  "fst (consumer_tick send ti tracker) =
     (if is_ready (ti_settings ti)
      then fst (process_loop (ti_settings ti) (ti_now ti) (DAList.impl_of (ti_klines ti))
                  (ti_ticker_daily ti) tracker)
      else tracker)"
  by (simp add: consumer_tick_def process_def Let_def split: prod.splits)

lemma consumer_tick_tasks:
  "fst (snd (consumer_tick send ti tracker)) =
     (if is_ready (ti_settings ti)
      then snd (process_loop (ti_settings ti) (ti_now ti) (DAList.impl_of (ti_klines ti))
                  (ti_ticker_daily ti) tracker)
      else [])"
  by (simp add: consumer_tick_def process_def Let_def split: prod.splits)

lemma process_loop_armed:
  assumes d: "distinct (map fst all_klines)"
    and a: "s \<in> n_symbol ` set (snd (process_loop st now all_klines tds tracker))"
  shows "fst (process_loop st now all_klines tds tracker) s = Some (now + real_of_int (timeout st))"
proof -
  obtain tr' ts' where r: "process_loop st now all_klines tds tracker = (tr', ts')"
    by (cases "process_loop st now all_klines tds tracker")
  have "s \<in> fst ` set all_klines"
  proof (rule ccontr)
    assume "s \<notin> fst ` set all_klines"
    from process_entries_other [OF this, of st now tds tracker "[]" tr' ts'] r a
    show False by (simp add: process_loop_def)
  qed
  then obtain klines where m: "(s, klines) \<in> set all_klines" by auto
  from process_loop_decides [OF d m r] a r show ?thesis by (simp split: if_splits)
qed

lemma consumer_tick_armed:
  "s \<in> n_symbol ` set (fst (snd (consumer_tick send ti tracker))) \<Longrightarrow>
   fst (consumer_tick send ti tracker) s = Some (ti_now ti + real_of_int (timeout (ti_settings ti)))"
  by (cases "is_ready (ti_settings ti)")
     (simp_all add: consumer_tick_tracker consumer_tick_tasks process_loop_armed)

lemma consumer_tick_blocked:
  assumes "tracker s = Some d" and "ti_now ti < d"
  shows "fst (consumer_tick send ti tracker) s = Some d \<and>
         s \<notin> n_symbol ` set (fst (snd (consumer_tick send ti tracker)))"
proof (cases "is_ready (ti_settings ti)")
  case True
  obtain tr' ts' where r: "foldl (process_entry (ti_settings ti) (ti_now ti) (ti_ticker_daily ti))
      (tracker, []) (DAList.impl_of (ti_klines ti)) = (tr', ts')"
    by (cases "foldl (process_entry (ti_settings ti) (ti_now ti) (ti_ticker_daily ti))
      (tracker, []) (DAList.impl_of (ti_klines ti))")
  from process_entries_blocked [OF assms r] True show ?thesis
    by (simp add: consumer_tick_tracker consumer_tick_tasks process_loop_def r)
next
  case False
  with assms show ?thesis by (simp add: consumer_tick_tracker consumer_tick_tasks)
qed

lemma consumer_run_length:
  "length (consumer_run send tracker tis) \<le> length tis"
  by (induction tis arbitrary: tracker) (auto split: prod.splits)

lemma consumer_run_blocked:
  "tracker s = Some d \<Longrightarrow> \<forall>k \<le> j. ti_now (tis ! k) < d \<Longrightarrow> j < length (consumer_run send tracker tis) \<Longrightarrow>
   s \<notin> n_symbol ` set (consumer_run send tracker tis ! j)"
proof (induction tis arbitrary: tracker j)
  case Nil
  then show ?case by simp
next
  case (Cons ti tis)
  obtain tr' ts' oc where r: "consumer_tick send ti tracker = (tr', ts', oc)"
    by (cases "consumer_tick send ti tracker")
  from Cons.prems(2) have n0: "ti_now ti < d" by fastforce
  from consumer_tick_blocked [of tracker s d ti send, OF Cons.prems(1) n0] r
  have tr: "tr' s = Some d" and ts: "s \<notin> n_symbol ` set ts'" by simp_all
  show ?case
  proof (cases j)
    case 0
    with ts show ?thesis by (simp add: r)
  next
    case (Suc j')
    with Cons.prems(3) have nh: "oc \<noteq> Hangs" and len: "j' < length (consumer_run send tr' tis)"
      by (auto simp: r split: if_splits)
    from Cons.prems(2) Suc have "\<forall>k \<le> j'. ti_now (tis ! k) < d" by fastforce
    from Cons.IH [OF tr this len] show ?thesis by (simp add: r Suc nh)
  qed
qed

lemma ex_klines_impl:
  "DAList.impl_of ex_klines =
     [(''XYZ'', [\<lparr>oi_t = 995000, oi_v = 1000\<rparr>, \<lparr>oi_t = 999000, oi_v = 1300\<rparr>])]"
  by (simp add: ex_klines_def Alist_inverse)

lemmas ex_defs = ex_tick_def ex_settings_def ex_klines_impl ex_ticker_daily_def

lemma ex_tick_1000:
  "consumer_tick send (ex_tick 1000) Map.empty =
     ([''XYZ'' \<mapsto> 1300],
      [\<lparr>n_symbol = ''XYZ'', n_change_pct = 30, n_daily_price = 2, n_daily_volume = 5000000\<rparr>],
      gather send [\<lparr>n_symbol = ''XYZ'', n_change_pct = 30, n_daily_price = 2, n_daily_volume = 5000000\<rparr>])"
  by (simp add: ex_defs consumer_tick_def process_def process_loop_def process_entry_def process_symbol_def
      calculate_open_interest_def oi_step_def growth_expr_def is_blocked_def block_def
      evict_expired_def)

lemma ex_tick_1001:
  "consumer_tick send (ex_tick 1001) [''XYZ'' \<mapsto> 1300] = ([''XYZ'' \<mapsto> 1300], [], Completed 0)"
  by (simp add: ex_defs consumer_tick_def process_def process_loop_def process_entry_def is_blocked_def
      evict_expired_def)

lemma ex_tick_neg_impl:
  "DAList.impl_of (ti_klines ex_tick_neg) =
     [(''XYZ'', [\<lparr>oi_t = 999000, oi_v = 50\<rparr>]), (''ABC'', [\<lparr>oi_t = 999000, oi_v = 70\<rparr>])]"
  by (simp add: ex_tick_neg_def Alist_inverse)

lemma ex_tick_neg_sel:
  "ti_now ex_tick_neg = 1000"
  "ti_settings ex_tick_neg = \<lparr>min_growth_prct = - 1, interval = 60, timeout = 300, is_ready = True\<rparr>"
  "ti_ticker_daily ex_tick_neg = [''XYZ'' \<mapsto> \<lparr>td_p = 2, td_q = 5000000\<rparr>]"
  by (simp_all add: ex_tick_neg_def)

lemma ex_tick_neg_run:
  "consumer_tick send ex_tick_neg [''ABC'' \<mapsto> 500] = (Map.empty, [], Completed 0)"
proof -
  have e: "[''ABC'' \<mapsto> 500::real](''ABC'' := None) = Map.empty"
    by (rule ext) simp
  show ?thesis
    by (simp add: consumer_tick_def process_def process_loop_def process_entry_def process_symbol_def
        calculate_open_interest_def oi_step_def growth_expr_def is_blocked_def evict_expired_def
        ex_tick_neg_impl ex_tick_neg_sel e)
qed

lemma unblocked_after_read:
  assumes "tracker' s = (if is_blocked tracker now s then tracker s else None)" and "now \<le> t"
  shows "is_blocked tracker' t s = is_blocked tracker t s"
  using assms by (auto simp: is_blocked_def split: option.splits if_splits)

text \<open>
  Claim C4, as the code has it. On a tick with ready settings, for a symbol of the window
  snapshot, a notification is dispatched and the cooldown is armed if and only if the symbol is
  not blocked, has a daily-ticker entry, and its growth is defined, is not zero and is strictly
  greater than \<open>min_growth_prct\<close>; for a threshold that is not negative the words "is not zero"
  can be left out. A symbol failing a condition is skipped: it gets no task and no cooldown is
  armed for it (it is blocked after the tick, at the time of the tick and later, exactly when it
  was before); the read of the tracker drops its entry when the deadline has passed.
\<close>

theorem dispatch_iff_nonzero_growth:
  assumes "is_ready (ti_settings ti)"
    and "(s, klines) \<in> set (DAList.impl_of (ti_klines ti))"
    and "consumer_tick send ti tracker = (tracker', tasks, outcome)"
  shows "(s \<in> n_symbol ` set tasks \<longleftrightarrow>
           (\<not> is_blocked tracker (ti_now ti) s \<and> ti_ticker_daily ti s \<noteq> None \<and>
            (\<exists>c. calculate_open_interest (ti_settings ti) (ti_now ti) klines = Some c \<and>
                 c \<noteq> 0 \<and> c > min_growth_prct (ti_settings ti)))) \<and>
         (0 \<le> min_growth_prct (ti_settings ti) \<longrightarrow>
            (s \<in> n_symbol ` set tasks \<longleftrightarrow>
               (\<not> is_blocked tracker (ti_now ti) s \<and> ti_ticker_daily ti s \<noteq> None \<and>
                (\<exists>c. calculate_open_interest (ti_settings ti) (ti_now ti) klines = Some c \<and>
                     c > min_growth_prct (ti_settings ti))))) \<and>
         (s \<in> n_symbol ` set tasks \<longrightarrow>
            tracker' s = Some (ti_now ti + real_of_int (timeout (ti_settings ti)))) \<and>
         (s \<notin> n_symbol ` set tasks \<longrightarrow>
            tracker' s = (if is_blocked tracker (ti_now ti) s then tracker s else None) \<and>
            (\<forall>t \<ge> ti_now ti. is_blocked tracker' t s = is_blocked tracker t s))"
proof -
  let ?st = "ti_settings ti" and ?now = "ti_now ti"
  define cond where "cond \<longleftrightarrow>
      \<not> is_blocked tracker ?now s \<and> ti_ticker_daily ti s \<noteq> None \<and>
      (\<exists>c. calculate_open_interest ?st ?now klines = Some c \<and> c \<noteq> 0 \<and> c > min_growth_prct ?st)"
  have d: "distinct (map fst (DAList.impl_of (ti_klines ti)))" by simp
  have ac: "alert_cond ?st ?now (ti_ticker_daily ti) tracker s klines = cond"
    by (simp add: alert_cond_ex cond_def)
  from process_loop_decides [OF d assms(2) consumer_tick_ready [OF assms(1,3)]]
  have iff: "s \<in> n_symbol ` set tasks \<longleftrightarrow> cond"
    and tr: "tracker' s = (if cond then Some (?now + real_of_int (timeout ?st))
                           else evict_expired tracker ?now s s)"
    by (simp_all only: ac)
  have nonneg: "s \<in> n_symbol ` set tasks \<longleftrightarrow>
      (\<not> is_blocked tracker ?now s \<and> ti_ticker_daily ti s \<noteq> None \<and>
       (\<exists>c. calculate_open_interest ?st ?now klines = Some c \<and> c > min_growth_prct ?st))"
    if "0 \<le> min_growth_prct ?st"
    using iff that unfolding cond_def by auto
  have armed: "tracker' s = Some (?now + real_of_int (timeout ?st))" if "s \<in> n_symbol ` set tasks"
    using tr iff that by simp
  have skipped: "tracker' s = (if is_blocked tracker ?now s then tracker s else None)"
    if "s \<notin> n_symbol ` set tasks"
    using tr iff that by (simp add: evict_expired_apply)
  have same: "\<forall>t \<ge> ?now. is_blocked tracker' t s = is_blocked tracker t s"
    if "s \<notin> n_symbol ` set tasks"
    using unblocked_after_read [of tracker' s tracker ?now, OF skipped [OF that]] by blast
  from iff [unfolded cond_def] nonneg armed skipped same show ?thesis by blast
qed

theorem dispatch_iff_nonzero_growth_witness:
  "is_ready (ti_settings (ex_tick 1000)) \<and>
   (''XYZ'', [\<lparr>oi_t = 995000, oi_v = 1000\<rparr>, \<lparr>oi_t = 999000, oi_v = 1300\<rparr>])
      \<in> set (DAList.impl_of (ti_klines (ex_tick 1000))) \<and>
   0 \<le> min_growth_prct (ti_settings (ex_tick 1000)) \<and>
   calculate_open_interest (ti_settings (ex_tick 1000)) (ti_now (ex_tick 1000))
      [\<lparr>oi_t = 995000, oi_v = 1000\<rparr>, \<lparr>oi_t = 999000, oi_v = 1300\<rparr>] = Some 30 \<and>
   ''XYZ'' \<in> n_symbol ` set (fst (snd (consumer_tick (\<lambda>_. Sent) (ex_tick 1000) Map.empty))) \<and>
   fst (consumer_tick (\<lambda>_. Sent) (ex_tick 1000) Map.empty) ''XYZ'' = Some 1300 \<and>
   is_blocked [''XYZ'' \<mapsto> 1300] (ti_now (ex_tick 1001)) ''XYZ'' \<and>
   ''XYZ'' \<notin> n_symbol ` set (fst (snd (consumer_tick (\<lambda>_. Sent) (ex_tick 1001) [''XYZ'' \<mapsto> 1300]))) \<and>
   fst (consumer_tick (\<lambda>_. Sent) (ex_tick 1001) [''XYZ'' \<mapsto> 1300]) ''XYZ'' = Some 1300 \<and>
   is_blocked (fst (consumer_tick (\<lambda>_. Sent) (ex_tick 1001) [''XYZ'' \<mapsto> 1300])) 1200 ''XYZ''"
proof -
  let ?k = "[\<lparr>oi_t = 995000, oi_v = 1000\<rparr>, \<lparr>oi_t = 999000, oi_v = 1300\<rparr>]"
  have h1: "is_ready (ti_settings (ex_tick t))" for t by (simp add: ex_defs)
  have h2: "(''XYZ'', ?k) \<in> set (DAList.impl_of (ti_klines (ex_tick t)))" for t
    by (simp add: ex_defs)
  have h3: "consumer_tick (\<lambda>_. Sent) (ex_tick t) tr =
     (fst (consumer_tick (\<lambda>_. Sent) (ex_tick t) tr),
      fst (snd (consumer_tick (\<lambda>_. Sent) (ex_tick t) tr)),
      snd (snd (consumer_tick (\<lambda>_. Sent) (ex_tick t) tr)))" for t tr by simp
  have nn: "0 \<le> min_growth_prct (ti_settings (ex_tick 1000))" by (simp add: ex_defs)
  have c: "calculate_open_interest (ti_settings (ex_tick 1000)) (ti_now (ex_tick 1000)) ?k = Some 30"
    by (simp add: ex_defs calculate_open_interest_def oi_step_def growth_expr_def)
  have rest: "\<not> is_blocked Map.empty (ti_now (ex_tick 1000)) ''XYZ'' \<and>
      ti_ticker_daily (ex_tick 1000) ''XYZ'' \<noteq> None \<and> min_growth_prct (ti_settings (ex_tick 1000)) < 30 \<and>
      ti_now (ex_tick 1000) + real_of_int (timeout (ti_settings (ex_tick 1000))) = 1300"
    by (simp add: ex_defs is_blocked_def)
  have b: "is_blocked [''XYZ'' \<mapsto> 1300] (ti_now (ex_tick 1001)) ''XYZ''"
    by (simp add: ex_defs is_blocked_def)
  have later: "ti_now (ex_tick 1001) \<le> 1200" "is_blocked [''XYZ'' \<mapsto> 1300] 1200 ''XYZ''"
    by (simp_all add: ex_defs is_blocked_def)
  from dispatch_iff_nonzero_growth [OF h1 h2 h3, of 1000 Map.empty] nn c rest
  have first: "''XYZ'' \<in> n_symbol ` set (fst (snd (consumer_tick (\<lambda>_. Sent) (ex_tick 1000) Map.empty))) \<and>
      fst (consumer_tick (\<lambda>_. Sent) (ex_tick 1000) Map.empty) ''XYZ'' = Some 1300"
    by simp
  from dispatch_iff_nonzero_growth [OF h1 h2 h3, of 1001 "[''XYZ'' \<mapsto> 1300]"] b later
  have second: "''XYZ'' \<notin> n_symbol ` set (fst (snd (consumer_tick (\<lambda>_. Sent) (ex_tick 1001) [''XYZ'' \<mapsto> 1300]))) \<and>
      fst (consumer_tick (\<lambda>_. Sent) (ex_tick 1001) [''XYZ'' \<mapsto> 1300]) ''XYZ'' = Some 1300 \<and>
      is_blocked (fst (consumer_tick (\<lambda>_. Sent) (ex_tick 1001) [''XYZ'' \<mapsto> 1300])) 1200 ''XYZ''"
    by simp
  from h1 [of 1000] h2 [of 1000] nn c b first second show ?thesis by blast
qed

text \<open>
  Claim C4 as stated fails on the tick \<open>ex_tick_neg\<close> in both of its parts. The symbol \<open>XYZ\<close>
  meets the three stated conditions (not blocked, daily-ticker entry, growth 0 defined and
  greater than the threshold \<open>-1\<close>), yet the test \<^verbatim>\<open>if change_pct and ...\<close> is false and
  nothing is dispatched or armed. The symbol \<open>ABC\<close> fails a condition (no daily-ticker entry)
  and is skipped, yet the read of the tracker has dropped its expired entry.
\<close>

theorem dispatch_iff_growth_counterexample:
  "is_ready (ti_settings ex_tick_neg) \<and>
   DAList.impl_of (ti_klines ex_tick_neg) =
     [(''XYZ'', [\<lparr>oi_t = 999000, oi_v = 50\<rparr>]), (''ABC'', [\<lparr>oi_t = 999000, oi_v = 70\<rparr>])] \<and>
   \<not> is_blocked [''ABC'' \<mapsto> 500] (ti_now ex_tick_neg) ''XYZ'' \<and>
   ti_ticker_daily ex_tick_neg ''XYZ'' \<noteq> None \<and>
   calculate_open_interest (ti_settings ex_tick_neg) (ti_now ex_tick_neg) [\<lparr>oi_t = 999000, oi_v = 50\<rparr>] = Some 0 \<and>
   0 > min_growth_prct (ti_settings ex_tick_neg) \<and>
   fst (snd (consumer_tick (\<lambda>_. Sent) ex_tick_neg [''ABC'' \<mapsto> 500])) = [] \<and>
   fst (consumer_tick (\<lambda>_. Sent) ex_tick_neg [''ABC'' \<mapsto> 500]) ''XYZ'' = None \<and>
   ti_ticker_daily ex_tick_neg ''ABC'' = None \<and>
   [''ABC'' \<mapsto> 500::real] ''ABC'' = Some 500 \<and>
   fst (consumer_tick (\<lambda>_. Sent) ex_tick_neg [''ABC'' \<mapsto> 500]) ''ABC'' = None"
  by (simp add: ex_tick_neg_run ex_tick_neg_impl ex_tick_neg_sel calculate_open_interest_def
      oi_step_def growth_expr_def is_blocked_def)

text \<open>
  Claim C10. The tracker a tick leaves behind, and the tasks it creates, do not depend on how
  the sends end: the cooldown is armed in the loop, before \<open>gather\<close> awaits anything. A symbol
  with a task is blocked at every time before \<open>now + timeout\<close>, also when its send fails
  or never completes.
\<close>

theorem cooldown_armed_before_send:
  "fst (consumer_tick send ti tracker) = fst (consumer_tick send' ti tracker) \<and>
   fst (snd (consumer_tick send ti tracker)) = fst (snd (consumer_tick send' ti tracker)) \<and>
   (s \<in> n_symbol ` set (fst (snd (consumer_tick send ti tracker))) \<longrightarrow>
      (\<forall>t. t < ti_now ti + real_of_int (timeout (ti_settings ti)) \<longrightarrow>
           is_blocked (fst (consumer_tick send ti tracker)) t s))"
proof -
  have "is_blocked (fst (consumer_tick send ti tracker)) t s"
    if "s \<in> n_symbol ` set (fst (snd (consumer_tick send ti tracker)))"
      and "t < ti_now ti + real_of_int (timeout (ti_settings ti))" for t
    using consumer_tick_armed [OF that(1)] that(2) by (simp add: is_blocked_def)
  then show ?thesis by (simp add: consumer_tick_tracker consumer_tick_tasks)
qed

theorem cooldown_armed_before_send_witness:
  "''XYZ'' \<in> n_symbol ` set (fst (snd (consumer_tick (\<lambda>_. SendFailed) (ex_tick 1000) Map.empty))) \<and>
   snd (snd (consumer_tick (\<lambda>_. SendFailed) (ex_tick 1000) Map.empty)) = Errored \<and>
   (1299 :: real) < ti_now (ex_tick 1000) + real_of_int (timeout (ti_settings (ex_tick 1000))) \<and>
   is_blocked (fst (consumer_tick (\<lambda>_. SendFailed) (ex_tick 1000) Map.empty)) 1299 ''XYZ''"
proof -
  have a: "''XYZ'' \<in> n_symbol ` set (fst (snd (consumer_tick (\<lambda>_. SendFailed) (ex_tick 1000) Map.empty)))"
    by (simp add: ex_tick_1000)
  have b: "snd (snd (consumer_tick (\<lambda>_. SendFailed) (ex_tick 1000) Map.empty)) = Errored"
    by (simp add: ex_tick_1000 gather_def)
  have c: "(1299 :: real) < ti_now (ex_tick 1000) + real_of_int (timeout (ti_settings (ex_tick 1000)))"
    by (simp add: ex_defs)
  from cooldown_armed_before_send [of "\<lambda>_. SendFailed" "ex_tick 1000" Map.empty "\<lambda>_. SendFailed" "''XYZ''"]
    a c have "is_blocked (fst (consumer_tick (\<lambda>_. SendFailed) (ex_tick 1000) Map.empty)) 1299 ''XYZ''"
    by blast
  with a b c show ?thesis by simp
qed

text \<open>
  Claim C2. Along the ticks that run, in time order: when tick \<open>i\<close> dispatches an alert for a
  symbol, no later tick \<open>j\<close> whose time lies before the end of the cooldown armed at tick \<open>i\<close>
  dispatches an alert for the same symbol, whatever the windows, the settings of the later
  ticks and the outcomes of the sends. Within one tick the keys of the dictionary are
  distinct, so a symbol has at most one task (lemma \<open>process_loop_at_most_once\<close>).
\<close>

theorem no_second_alert_within_cooldown:
  assumes "sorted (map ti_now tis)" and "i < j" and "j < length (consumer_run send tracker tis)"
    and "s \<in> n_symbol ` set (consumer_run send tracker tis ! i)"
    and "ti_now (tis ! j) < ti_now (tis ! i) + real_of_int (timeout (ti_settings (tis ! i)))"
  shows "s \<notin> n_symbol ` set (consumer_run send tracker tis ! j)"
  using assms
proof (induction tis arbitrary: tracker i j)
  case Nil
  then show ?case by simp
next
  case (Cons ti tis)
  obtain tr' ts' oc where r: "consumer_tick send ti tracker = (tr', ts', oc)"
    by (cases "consumer_tick send ti tracker")
  from Cons.prems(2) obtain j' where j: "j = Suc j'" by (cases j) auto
  with Cons.prems(3) have nh: "oc \<noteq> Hangs" and len: "j' < length (consumer_run send tr' tis)"
    by (auto simp: r split: if_splits)
  have lenle: "length (consumer_run send tr' tis) \<le> length tis"
    by (rule consumer_run_length)
  show ?case
  proof (cases i)
    case 0
    with Cons.prems(4) have "s \<in> n_symbol ` set ts'" by (simp add: r)
    with consumer_tick_armed [of s send ti tracker] r
    have tr: "tr' s = Some (ti_now ti + real_of_int (timeout (ti_settings ti)))" by simp
    have "\<forall>k \<le> j'. ti_now (tis ! k) < ti_now ti + real_of_int (timeout (ti_settings ti))"
    proof (intro allI impI)
      fix k assume k: "k \<le> j'"
      with len lenle have "k < length tis" "j' < length tis" by simp_all
      with Cons.prems(1) k have "ti_now (tis ! k) \<le> ti_now (tis ! j')"
        by (simp add: sorted_iff_nth_mono)
      with Cons.prems(5) show "ti_now (tis ! k) < ti_now ti + real_of_int (timeout (ti_settings ti))"
        by (simp add: j 0)
    qed
    from consumer_run_blocked [OF tr this len] show ?thesis by (simp add: r j nh)
  next
    case (Suc i')
    from Cons.prems(1) have so: "sorted (map ti_now tis)" by simp
    from Cons.prems(2) have lt: "i' < j'" by (simp add: Suc j)
    from Cons.prems(4) have al: "s \<in> n_symbol ` set (consumer_run send tr' tis ! i')"
      by (simp add: r Suc nh)
    from Cons.prems(5) have cd: "ti_now (tis ! j') < ti_now (tis ! i') + real_of_int (timeout (ti_settings (tis ! i')))"
      by (simp add: Suc j)
    from Cons.IH [OF so lt len al cd] show ?thesis by (simp add: r j nh)
  qed
qed

theorem no_second_alert_within_cooldown_witness:
  "sorted (map ti_now [ex_tick 1000, ex_tick 1001]) \<and> (0::nat) < 1 \<and>
   1 < length (consumer_run (\<lambda>_. Sent) Map.empty [ex_tick 1000, ex_tick 1001]) \<and>
   ''XYZ'' \<in> n_symbol ` set (consumer_run (\<lambda>_. Sent) Map.empty [ex_tick 1000, ex_tick 1001] ! 0) \<and>
   ti_now ([ex_tick 1000, ex_tick 1001] ! 1) <
     ti_now ([ex_tick 1000, ex_tick 1001] ! 0) + real_of_int (timeout (ti_settings ([ex_tick 1000, ex_tick 1001] ! 0))) \<and>
   ''XYZ'' \<notin> n_symbol ` set (consumer_run (\<lambda>_. Sent) Map.empty [ex_tick 1000, ex_tick 1001] ! 1)"
proof -
  have run: "consumer_run (\<lambda>_. Sent) Map.empty [ex_tick 1000, ex_tick 1001] =
    [ [\<lparr>n_symbol = ''XYZ'', n_change_pct = 30, n_daily_price = 2, n_daily_volume = 5000000\<rparr>], [] ]"
    by (simp add: ex_tick_1000 ex_tick_1001 gather_def)
  have h1: "sorted (map ti_now [ex_tick 1000, ex_tick 1001])" by (simp add: ex_defs)
  have h2: "(0::nat) < 1" by simp
  have h3: "1 < length (consumer_run (\<lambda>_. Sent) Map.empty [ex_tick 1000, ex_tick 1001])"
    unfolding run by simp
  have h4: "''XYZ'' \<in> n_symbol ` set (consumer_run (\<lambda>_. Sent) Map.empty [ex_tick 1000, ex_tick 1001] ! 0)"
    unfolding run by simp
  have h5: "ti_now ([ex_tick 1000, ex_tick 1001] ! 1) <
     ti_now ([ex_tick 1000, ex_tick 1001] ! 0) + real_of_int (timeout (ti_settings ([ex_tick 1000, ex_tick 1001] ! 0)))"
    by (simp add: ex_defs)
  from no_second_alert_within_cooldown [OF h1 h2 h3 h4 h5] h1 h2 h3 h4 h5 show ?thesis by blast
qed

section \<open>The producer: merging a snapshot\<close>

lemma store_get_update:
  "store_get (AList.update k v store) k' = (if k' = k then v else store_get store k')"
  by (simp add: store_get_def update_conv')

lemma process_snapshot_item_get:
  "store_get (process_snapshot_item thr store (k, item)) k' =
     (if k' = k then filter (\<lambda>el. thr \<le> real_of_int (oi_t el)) (store_get store k) @ [item]
      else store_get store k')"
  by (simp add: process_snapshot_item_def Let_def store_get_update)

lemma process_snapshot_item_map_of:
  "k' \<noteq> fst entry \<Longrightarrow> map_of (process_snapshot_item thr store entry) k' = map_of store k'"
  by (cases entry) (simp add: process_snapshot_item_def Let_def update_conv')

lemma process_snapshot_items_absent:
  "k \<notin> fst ` set snap \<Longrightarrow>
   map_of (foldl (process_snapshot_item thr) store snap) k = map_of store k"
  by (induction snap arbitrary: store) (auto simp: process_snapshot_item_map_of)

lemma process_snapshot_items_present:
  "distinct (map fst snap) \<Longrightarrow> (k, item) \<in> set snap \<Longrightarrow>
   store_get (foldl (process_snapshot_item thr) store snap) k =
     filter (\<lambda>el. thr \<le> real_of_int (oi_t el)) (store_get store k) @ [item]"
proof (induction snap arbitrary: store)
  case Nil
  then show ?case by simp
next
  case (Cons e snap)
  show ?case
  proof (cases "e = (k, item)")
    case True
    with Cons.prems(1) have "k \<notin> fst ` set snap" by auto
    from process_snapshot_items_absent [OF this, of thr "process_snapshot_item thr store (k, item)"]
    have "store_get (foldl (process_snapshot_item thr) (process_snapshot_item thr store (k, item)) snap) k =
          store_get (process_snapshot_item thr store (k, item)) k"
      by (simp add: store_get_def)
    then show ?thesis by (simp add: True process_snapshot_item_get)
  next
    case False
    with Cons.prems have m: "(k, item) \<in> set snap" and d: "distinct (map fst snap)" by auto
    from Cons.prems(1) m have "fst e \<noteq> k" by (cases e) force
    then have "store_get (process_snapshot_item thr store e) k = store_get store k"
      by (cases e) (simp add: process_snapshot_item_get)
    with Cons.IH [OF d m, of "process_snapshot_item thr store e"] show ?thesis by simp
  qed
qed

text \<open>
  Claim C9. Merging a snapshot changes only the entries of the symbols of the snapshot: the
  sequence of every other symbol is exactly what it was, and for a symbol of the snapshot the
  new sequence is the surviving prior elements, in their order, followed by the new item.
\<close>

theorem merge_frame_and_order:
  assumes "distinct (map fst snap)"
  shows "(k \<notin> fst ` set snap \<longrightarrow> map_of (process_snapshot now store snap) k = map_of store k) \<and>
         ((k, item) \<in> set snap \<longrightarrow>
            store_get (process_snapshot now store snap) k =
              filter (\<lambda>el. (now - real_of_int MAX_HISTORY_LEN) * 1000 \<le> real_of_int (oi_t el))
                (store_get store k) @ [item] \<and>
            subseq (butlast (store_get (process_snapshot now store snap) k)) (store_get store k))"
  using process_snapshot_items_present [OF assms, of k item]
  by (simp add: process_snapshot_def Let_def process_snapshot_items_absent)

theorem merge_frame_and_order_witness:
  "distinct (map fst [(''NEW'', \<lparr>oi_t = 9999000, oi_v = 2\<rparr>)]) \<and>
   ''OLD'' \<notin> fst ` set [(''NEW'', \<lparr>oi_t = 9999000, oi_v = 2\<rparr>)] \<and>
   map_of (process_snapshot 10000
       [(''OLD'', [\<lparr>oi_t = 5000000, oi_v = 1\<rparr>]),
        (''NEW'', [\<lparr>oi_t = 9000000, oi_v = 3\<rparr>, \<lparr>oi_t = 9500000, oi_v = 4\<rparr>, \<lparr>oi_t = 9994000, oi_v = 5\<rparr>])]
       [(''NEW'', \<lparr>oi_t = 9999000, oi_v = 2\<rparr>)]) ''OLD'' = Some [\<lparr>oi_t = 5000000, oi_v = 1\<rparr>] \<and>
   (''NEW'', \<lparr>oi_t = 9999000, oi_v = 2\<rparr>) \<in> set [(''NEW'', \<lparr>oi_t = 9999000, oi_v = 2\<rparr>)] \<and>
   store_get (process_snapshot 10000
       [(''OLD'', [\<lparr>oi_t = 5000000, oi_v = 1\<rparr>]),
        (''NEW'', [\<lparr>oi_t = 9000000, oi_v = 3\<rparr>, \<lparr>oi_t = 9500000, oi_v = 4\<rparr>, \<lparr>oi_t = 9994000, oi_v = 5\<rparr>])]
       [(''NEW'', \<lparr>oi_t = 9999000, oi_v = 2\<rparr>)]) ''NEW'' =
     [\<lparr>oi_t = 9500000, oi_v = 4\<rparr>, \<lparr>oi_t = 9994000, oi_v = 5\<rparr>, \<lparr>oi_t = 9999000, oi_v = 2\<rparr>]"
proof -
  have h: "distinct (map fst [(''NEW'', \<lparr>oi_t = 9999000, oi_v = 2\<rparr>)])" by simp
  have a: "''OLD'' \<notin> fst ` set [(''NEW'', \<lparr>oi_t = 9999000, oi_v = 2\<rparr>)]" by simp
  have b: "(''NEW'', \<lparr>oi_t = 9999000, oi_v = 2\<rparr>) \<in> set [(''NEW'', \<lparr>oi_t = 9999000, oi_v = 2\<rparr>)]" by simp
  from merge_frame_and_order [OF h, of "''OLD''" 10000
       "[(''OLD'', [\<lparr>oi_t = 5000000, oi_v = 1\<rparr>]),
        (''NEW'', [\<lparr>oi_t = 9000000, oi_v = 3\<rparr>, \<lparr>oi_t = 9500000, oi_v = 4\<rparr>, \<lparr>oi_t = 9994000, oi_v = 5\<rparr>])]"] a
  have c: "map_of (process_snapshot 10000
       [(''OLD'', [\<lparr>oi_t = 5000000, oi_v = 1\<rparr>]),
        (''NEW'', [\<lparr>oi_t = 9000000, oi_v = 3\<rparr>, \<lparr>oi_t = 9500000, oi_v = 4\<rparr>, \<lparr>oi_t = 9994000, oi_v = 5\<rparr>])]
       [(''NEW'', \<lparr>oi_t = 9999000, oi_v = 2\<rparr>)]) ''OLD'' = Some [\<lparr>oi_t = 5000000, oi_v = 1\<rparr>]"
    by simp
  from merge_frame_and_order [OF h, of "''NEW''" 10000
       "[(''OLD'', [\<lparr>oi_t = 5000000, oi_v = 1\<rparr>]),
        (''NEW'', [\<lparr>oi_t = 9000000, oi_v = 3\<rparr>, \<lparr>oi_t = 9500000, oi_v = 4\<rparr>, \<lparr>oi_t = 9994000, oi_v = 5\<rparr>])]"
       "\<lparr>oi_t = 9999000, oi_v = 2\<rparr>"] b
  have d: "store_get (process_snapshot 10000
       [(''OLD'', [\<lparr>oi_t = 5000000, oi_v = 1\<rparr>]),
        (''NEW'', [\<lparr>oi_t = 9000000, oi_v = 3\<rparr>, \<lparr>oi_t = 9500000, oi_v = 4\<rparr>, \<lparr>oi_t = 9994000, oi_v = 5\<rparr>])]
       [(''NEW'', \<lparr>oi_t = 9999000, oi_v = 2\<rparr>)]) ''NEW'' =
     [\<lparr>oi_t = 9500000, oi_v = 4\<rparr>, \<lparr>oi_t = 9994000, oi_v = 5\<rparr>, \<lparr>oi_t = 9999000, oi_v = 2\<rparr>]"
    by (simp add: store_get_def MAX_HISTORY_LEN_def)
  from h a b c d show ?thesis by blast
qed

text \<open>
  Claim C3, as the code has it. After a merge at time \<open>now\<close>, for every symbol of the snapshot,
  every element of its sequence but the last (the elements kept from the prior sequence) has a
  timestamp of at least \<open>(now - 15 * 60) * 1000\<close> milliseconds; the last element is the new
  item, appended with no test of its timestamp.
\<close>

theorem merge_prunes_present_symbols:
  assumes "distinct (map fst snap)" and "(k, item) \<in> set snap"
  shows "store_get (process_snapshot now store snap) k \<noteq> [] \<and>
         last (store_get (process_snapshot now store snap) k) = item \<and>
         (\<forall>el \<in> set (butlast (store_get (process_snapshot now store snap) k)).
            (now - 15 * 60) * 1000 \<le> real_of_int (oi_t el))"
  using process_snapshot_items_present [OF assms]
  by (simp add: process_snapshot_def Let_def MAX_HISTORY_LEN_def)

theorem merge_prunes_present_symbols_witness:
  "distinct (map fst [(''NEW'', \<lparr>oi_t = 9999000, oi_v = 2\<rparr>)]) \<and>
   (''NEW'', \<lparr>oi_t = 9999000, oi_v = 2\<rparr>) \<in> set [(''NEW'', \<lparr>oi_t = 9999000, oi_v = 2\<rparr>)] \<and>
   last (store_get (process_snapshot 10000
       [(''NEW'', [\<lparr>oi_t = 9000000, oi_v = 3\<rparr>, \<lparr>oi_t = 9500000, oi_v = 4\<rparr>])]
       [(''NEW'', \<lparr>oi_t = 9999000, oi_v = 2\<rparr>)]) ''NEW'') = \<lparr>oi_t = 9999000, oi_v = 2\<rparr> \<and>
   list_all (\<lambda>el. (10000 - 15 * 60) * 1000 \<le> real_of_int (oi_t el))
     (butlast (store_get (process_snapshot 10000
       [(''NEW'', [\<lparr>oi_t = 9000000, oi_v = 3\<rparr>, \<lparr>oi_t = 9500000, oi_v = 4\<rparr>])]
       [(''NEW'', \<lparr>oi_t = 9999000, oi_v = 2\<rparr>)]) ''NEW''))"
proof -
  have h1: "distinct (map fst [(''NEW'', \<lparr>oi_t = 9999000, oi_v = 2\<rparr>)])" by simp
  have h2: "(''NEW'', \<lparr>oi_t = 9999000, oi_v = 2\<rparr>) \<in> set [(''NEW'', \<lparr>oi_t = 9999000, oi_v = 2\<rparr>)]" by simp
  from merge_prunes_present_symbols [OF h1 h2, of 10000
       "[(''NEW'', [\<lparr>oi_t = 9000000, oi_v = 3\<rparr>, \<lparr>oi_t = 9500000, oi_v = 4\<rparr>])]"] h1 h2
  show ?thesis by (simp add: list_all_iff)
qed

text \<open>
  Claim C3 as stated (every retained sample of every symbol, the new item included) fails:
  the symbol \<open>OLD\<close>, absent from the snapshot, keeps a sample older than the horizon, and the
  item appended for \<open>NEW\<close> carries a timestamp older than the horizon.
\<close>

theorem merge_retention_counterexample:
  "process_snapshot 10000 [(''OLD'', [\<lparr>oi_t = 5000000, oi_v = 1\<rparr>])] [(''NEW'', \<lparr>oi_t = 6000000, oi_v = 2\<rparr>)] =
     [(''OLD'', [\<lparr>oi_t = 5000000, oi_v = 1\<rparr>]), (''NEW'', [\<lparr>oi_t = 6000000, oi_v = 2\<rparr>])] \<and>
   real_of_int (oi_t \<lparr>oi_t = 5000000, oi_v = 1\<rparr>) < (10000 - 15 * 60) * 1000 \<and>
   real_of_int (oi_t \<lparr>oi_t = 6000000, oi_v = 2\<rparr>) < (10000 - 15 * 60) * 1000"
  by (simp add: process_snapshot_def process_snapshot_item_def store_get_def MAX_HISTORY_LEN_def)

section \<open>The producer: batched snapshot fetch\<close>

text \<open>What the loop stores for a response, and what it skips.\<close>

lemma collect_response_map_of:
  "map_of (collect_response results (k, r)) =
     (if is_exception r \<or> \<not> truthy r then map_of results else (map_of results)(k \<mapsto> r))"
  by (simp add: collect_response_def update_conv')

lemma collect_responses_map_of:
  "map_of (foldl collect_response results (map (\<lambda>k. (k, f k)) chunk)) k =
     (if k \<in> set chunk \<and> \<not> is_exception (f k) \<and> truthy (f k) then Some (f k)
      else map_of results k)"
  by (induction chunk arbitrary: results) (auto simp: collect_response_map_of)

lemma fetch_chunk_map_of:
  "map_of (fetch_chunk f results chunk) k =
     (if k \<in> set chunk \<and> \<not> is_exception (f k) \<and> truthy (f k) then Some (f k)
      else map_of results k)"
  by (simp add: fetch_chunk_def Let_def zip_map2 zip_same_conv_map collect_responses_map_of [symmetric] comp_def)

lemma fetch_chunks_map_of:
  "map_of (foldl (fetch_chunk f) results chunks) k =
     (if k \<in> set (concat chunks) \<and> \<not> is_exception (f k) \<and> truthy (f k) then Some (f k)
      else map_of results k)"
  by (induction chunks arbitrary: results) (auto simp: fetch_chunk_map_of)

text \<open>
  The loops never stop early: a ticker of any chunk is in the result exactly when its response
  is neither an instance of \<^verbatim>\<open>Exception\<close> nor falsy, and then it is mapped to that response.
\<close>

lemma batched_fetch_map_of:
  "map_of (fetch_open_interest_snapshot_batched open_interest chunks) ticker =
     (if ticker \<in> set (concat chunks) \<and> \<not> is_exception (open_interest ticker) \<and>
         truthy (open_interest ticker)
      then Some (open_interest ticker) else None)"
  by (simp add: fetch_open_interest_snapshot_batched_def fetch_chunks_map_of)

lemma batched_fetch_example:
  "fetch_open_interest_snapshot_batched
     (\<lambda>k. if k = ''B'' then Raised ''timeout'' else if k = ''D'' then Empty
          else Response \<lparr>oi_t = 1000, oi_v = 7\<rparr>)
     [ [''A'', ''B'', ''C''], [''D'', ''E''] ] =
   [(''A'', Response \<lparr>oi_t = 1000, oi_v = 7\<rparr>), (''C'', Response \<lparr>oi_t = 1000, oi_v = 7\<rparr>),
    (''E'', Response \<lparr>oi_t = 1000, oi_v = 7\<rparr>)]"
  by (simp add: fetch_open_interest_snapshot_batched_def fetch_chunk_def collect_response_def)

text \<open>
  Claim C5. The claim asks that a request that raises is skipped and that the snapshot holds
  exactly the symbols whose request succeeded with a non-empty response. The test
  \<^verbatim>\<open>isinstance(response, Exception)\<close> misses an exception object that is not an instance of
  \<^verbatim>\<open>Exception\<close>: when the request for \<open>B\<close> ends in \<^verbatim>\<open>asyncio.CancelledError\<close>, the object
  is truthy, passes both tests and is stored under \<open>B\<close> as if it were an open-interest item.
\<close>

theorem batched_fetch_stores_cancelled:
  "fetch_open_interest_snapshot_batched
     (\<lambda>k. if k = ''B'' then RaisedBase ''CancelledError'' else Response \<lparr>oi_t = 1000, oi_v = 7\<rparr>)
     [ [''A'', ''B''] ] =
   [(''A'', Response \<lparr>oi_t = 1000, oi_v = 7\<rparr>), (''B'', RaisedBase ''CancelledError'')]"
  by (simp add: fetch_open_interest_snapshot_batched_def fetch_chunk_def collect_response_def)

end
